theory Spec2Isabelle
  imports Main
begin

section \<open>The virtual scroller: data model\<close>

text \<open>
  A shallow embedding of \<^verbatim>\<open>src/src/VirtualScroller.ts\<close> (class \<open>VirtualScroller\<close>) and of
  the interfaces \<open>ScrollerItemMeta\<close>, \<open>ScrollerRange\<close>, \<open>ScrollerLoading\<close> and
  \<open>ScrollerVisibleItems\<close>.

  TypeScript's \<open>number\<close> is modelled as \<open>int\<close>: indices and lengths are integers in the
  source, and heights and scroll offsets are taken in whole layout units. A value that may
  be \<open>undefined\<close> is an \<open>option\<close>. A thrown exception is the left summand of a sum and
  carries the component's state at the throw, since JavaScript does not roll mutations back.

  The styles, the template and the \<open>render\<close> methods, \<open>init\<close> and the visibility
  observer are not modelled; nor is the registration of nodes with the node resize
  observer in \<open>updateMetadata\<close>.
\<close>

datatype error = TypeError

record ScrollerLoading =
  top :: int
  height :: int

record 'a ScrollerItemMeta =
  index :: int
  height :: int
  data :: "'a option"

record ScrollerRange =
  start :: int
  end' :: int

record ScrollerVisibleItems =
  first :: int
  last' :: int

text \<open>A dispatched \<open>CustomEvent\<close>: its type string and its \<open>detail\<close>.\<close>

record CustomEvent =
  type' :: string
  detail :: "int option"

text \<open>
  The reactive properties and state of the component. \<open>scrollPosition\<close> is the scroll
  offset of the host element, the only thing \<open>this.scrollTo\<close> writes; the \<open>scrollTop\<close>,
  \<open>offsetHeight\<close> and \<open>clientHeight\<close> of the inner \<open>.virtual-scroller\<close> element and the
  rendered item nodes belong to the browser and are arguments of the functions that read
  them.
\<close>

record 'a VirtualScroller =
  items :: "'a list"
  hasMore :: bool
  minHeight :: int
  itemsMetadata :: "'a ScrollerItemMeta list"
  attachedRange :: ScrollerRange
  loadingItem :: ScrollerLoading
  isScrolling :: bool
  isReady :: bool
  scrollPosition :: "int \<times> int"

type_synonym 'a thrown = "error \<times> 'a VirtualScroller"

section \<open>JavaScript and lodash primitives\<close>

text \<open>\<open>xs[i]\<close>: \<open>undefined\<close> outside \<open>0 .. length - 1\<close>.\<close>

definition js_index :: "'a list \<Rightarrow> int \<Rightarrow> 'a option" where
  "js_index xs i = (if 0 \<le> i \<and> i < int (length xs) then Some (xs ! nat i) else None)"

text \<open>
  \<open>xs.slice(b, e)\<close>: a negative bound counts from the end of the array, and both bounds
  are cut to \<open>0 .. length\<close>.
\<close>

definition js_slice :: "'a list \<Rightarrow> int \<Rightarrow> int \<Rightarrow> 'a list" where
  "js_slice xs b e =
     (let n = int (length xs);
          k = (if b < 0 then max (n + b) 0 else min b n);
          f = (if e < 0 then max (n + e) 0 else min e n)
      in take (nat (f - k)) (drop (nat k) xs))"

text \<open>
  \<open>xs[k] = v\<close>. Inside the array the slot is overwritten and at \<open>k = length\<close> the array
  grows by one. A negative \<open>k\<close> sets a named property and leaves the elements alone. A
  \<open>k\<close> beyond the length would leave holes, which a list cannot hold: the list is left
  as it is. The only such store in the source writes a record back to its own \<open>index\<close>,
  and every record is created with \<open>index\<close> equal to its position.
\<close>

definition js_store :: "'a list \<Rightarrow> int \<Rightarrow> 'a \<Rightarrow> 'a list" where
  "js_store xs k v =
     (if 0 \<le> k \<and> k < int (length xs) then xs[nat k := v]
      else if k = int (length xs) then xs @ [v]
      else xs)"

text \<open>lodash \<open>last(array)\<close>: \<open>undefined\<close> on the empty array.\<close>

definition lodash_last :: "'a list \<Rightarrow> 'a option" where
  "lodash_last xs = (if xs = [] then None else Some (last xs))"

text \<open>
  lodash \<open>findLastIndex(array, predicate)\<close>: scans from index \<open>length - 1\<close> down to \<open>0\<close>
  and returns the first index whose element satisfies the predicate, or \<open>-1\<close>.
\<close>

fun findLastIndex_from :: "'a list \<Rightarrow> ('a \<Rightarrow> bool) \<Rightarrow> nat \<Rightarrow> int" where
  "findLastIndex_from array predicate 0 = - 1"
| "findLastIndex_from array predicate (Suc k) =
     (if predicate (array ! k) then int k else findLastIndex_from array predicate k)"

definition findLastIndex :: "'a list \<Rightarrow> ('a \<Rightarrow> bool) \<Rightarrow> int" where
  "findLastIndex array predicate = findLastIndex_from array predicate (length array)"

section \<open>Getters\<close>

text \<open>\<open>attached\<close>: the records of the attached window, numbered from \<open>0\<close>.\<close>

definition attached :: "'a VirtualScroller \<Rightarrow> (int \<times> 'a ScrollerItemMeta) list" where
  "attached s =
     map (\<lambda>(i, meta). (int i, meta))
       (enumerate 0 (js_slice (itemsMetadata s) (start (attachedRange s)) (end' (attachedRange s) + 1)))"

definition loading :: "'a VirtualScroller \<Rightarrow> bool" where
  "loading s \<longleftrightarrow> hasMore s \<and> end' (attachedRange s) \<ge> int (length (items s)) - 1"

text \<open>The getters \<open>_clientHeight\<close> and \<open>_scrollHeight\<close>.\<close>

definition clientHeight' :: "'a VirtualScroller \<Rightarrow> int" where
  "clientHeight' s =
     foldl (\<lambda>acumulador currentValue. acumulador + ScrollerItemMeta.height (snd currentValue)) 0 (attached s)"

text \<open>\<open>height || minHeight\<close>: the default stands in for a height of \<open>0\<close>.\<close>

definition height_or :: "int \<Rightarrow> 'a ScrollerItemMeta \<Rightarrow> int" where
  "height_or dflt currentValue =
     (if ScrollerItemMeta.height currentValue \<noteq> 0 then ScrollerItemMeta.height currentValue else dflt)"

definition scrollHeight' :: "'a VirtualScroller \<Rightarrow> int" where
  "scrollHeight' s =
     (let itemsHeight =
            foldl (\<lambda>acumulador currentValue. acumulador + height_or (minHeight s) currentValue) 0
              (itemsMetadata s)
      in if loading s then itemsHeight + ScrollerLoading.height (loadingItem s) else itemsHeight)"

definition accumulativeHeight_step :: "int \<Rightarrow> int list \<Rightarrow> 'a ScrollerItemMeta \<Rightarrow> int list" where
  "accumulativeHeight_step dflt acumulador currentValue =
     (case lodash_last acumulador of
        Some lastHeight \<Rightarrow> acumulador @ [lastHeight + height_or dflt currentValue]
      | None \<Rightarrow> acumulador)"

definition accumulativeHeight :: "'a VirtualScroller \<Rightarrow> int list" where
  "accumulativeHeight s = foldl (accumulativeHeight_step (minHeight s)) [0] (itemsMetadata s)"

section \<open>Methods\<close>

definition resetMetadata :: "'a VirtualScroller \<Rightarrow> 'a VirtualScroller" where
  "resetMetadata s =
     s\<lparr>attachedRange := \<lparr>start = 0, end' = 0\<rparr>,
       itemsMetadata :=
         map (\<lambda>(i, item). \<lparr>index = int i, height = 0, data = Some item\<rparr>) (enumerate 0 (items s))\<rparr>"

text \<open>
  The measuring loop of \<open>updateMetadata\<close>, from \<open>i\<close> to \<open>end\<close>. \<open>nodes\<close> are the
  \<open>offsetHeight\<close>s of the item nodes that \<open>querySelectorAll\<close> returned, in document
  order. A missing node ends the loop; a missing record with a node present makes the
  assignment to \<open>meta.height\<close> throw.
\<close>

function updateMetadata_loop ::
  "int list \<Rightarrow> int \<Rightarrow> int \<Rightarrow> 'a VirtualScroller \<Rightarrow> 'a thrown + 'a VirtualScroller" where
  "updateMetadata_loop nodes endR i s =
     (if i \<le> endR then
        (case js_index nodes (i - start (attachedRange s)) of
           None \<Rightarrow> Inr s
         | Some offsetHeight \<Rightarrow>
             (case js_index (itemsMetadata s) i of
                None \<Rightarrow> Inl (TypeError, s)
              | Some meta \<Rightarrow>
                  updateMetadata_loop nodes endR (i + 1)
                    (s\<lparr>itemsMetadata :=
                         js_store (itemsMetadata s) i
                           (meta\<lparr>height := offsetHeight, data := js_index (items s) i\<rparr>)\<rparr>)))
      else Inr s)"
  by pat_completeness auto
termination
  by (relation "measure (\<lambda>(nodes, endR, i, s). nat (endR + 1 - i))") auto

text \<open>
  The records that \<open>updateMetadata\<close> appends for \<open>diff\<close> new items:
  \<open>new Array(diff).fill(null).map((_, i) => ...)\<close>.
\<close>

definition new_records :: "'a VirtualScroller \<Rightarrow> nat \<Rightarrow> 'a ScrollerItemMeta list" where
  "new_records s diff =
     map (\<lambda>i. \<lparr>index = int (length (itemsMetadata s) + i), height = 0,
               data = js_index (items s) (int (length (itemsMetadata s) + i))\<rparr>)
       [0 ..< diff]"

definition updateMetadata :: "int list \<Rightarrow> 'a VirtualScroller \<Rightarrow> 'a thrown + 'a VirtualScroller" where
  "updateMetadata nodes s =
     (let diff = int (length (items s)) - int (length (itemsMetadata s));
          s1 = (if diff > 0
                then s\<lparr>itemsMetadata := itemsMetadata s @ new_records s (nat diff)\<rparr>
                else s)
      in if start (attachedRange s1) = end' (attachedRange s1) then Inr s1
         else updateMetadata_loop nodes (end' (attachedRange s1)) (start (attachedRange s1)) s1)"

text \<open>
  \<open>dispatch(event, data)\<close> builds \<open>new CustomEvent('event', { detail: data ?? undefined })\<close>:
  the type of the event is the string literal, whatever \<open>event\<close> is.
\<close>

definition dispatch :: "string \<Rightarrow> int option \<Rightarrow> CustomEvent" where
  "dispatch event dat = \<lparr>type' = ''event'', detail = dat\<rparr>"

definition fill ::
  "int \<Rightarrow> int \<Rightarrow> int list \<Rightarrow> 'a VirtualScroller \<Rightarrow> 'a thrown + ('a VirtualScroller \<times> CustomEvent list)" where
  "fill startArg endArg nodes s =
     (let starRange = max 0 startArg;
          endRange = min endArg (max 0 (int (length (items s)) - 1));
          s1 = s\<lparr>attachedRange := \<lparr>start = starRange, end' = endRange\<rparr>\<rparr>
      in case (if items s1 \<noteq> [] then updateMetadata nodes s1 else Inr s1) of
           Inl thrown \<Rightarrow> Inl thrown
         | Inr s2 \<Rightarrow>
             Inr (s2, if endArg \<ge> int (length (items s2)) \<and> hasMore s2
                      then [dispatch ''load-more'' (Some (int (length (items s2))))]
                      else []))"

definition getVisibleItems :: "int \<Rightarrow> int \<Rightarrow> 'a VirtualScroller \<Rightarrow> ScrollerVisibleItems" where
  "getVisibleItems scrollTop offsetHeight s =
     \<lparr>first = findLastIndex (accumulativeHeight s) (\<lambda>item. item \<le> scrollTop),
      last' = findLastIndex (accumulativeHeight s) (\<lambda>item. item \<le> scrollTop + offsetHeight)\<rparr>"

text \<open>
  \<open>handleScroll\<close> is asynchronous. \<open>handleScroll_enter\<close> is the part that runs when it is
  called, up to \<open>await this.tick()\<close>: it returns the state, the events dispatched and
  whether the call is now suspended at the tick. \<open>handleScroll_resume\<close> is the rest, run
  after the animation frame with the \<open>scrollTop\<close> and \<open>offsetHeight\<close> read then.
\<close>

definition handleScroll_enter :: "'a VirtualScroller \<Rightarrow> 'a VirtualScroller \<times> CustomEvent list \<times> bool" where
  "handleScroll_enter s =
     (if \<not> isScrolling s then (s\<lparr>isScrolling := True\<rparr>, [dispatch ''scrolled'' None], True)
      else (s, [], False))"

definition handleScroll_resume ::
  "int \<Rightarrow> int \<Rightarrow> int list \<Rightarrow> 'a VirtualScroller \<Rightarrow> 'a thrown + ('a VirtualScroller \<times> CustomEvent list)" where
  "handleScroll_resume scrollTop offsetHeight nodes s =
     (let s1 = s\<lparr>isScrolling := False\<rparr>;
          v = getVisibleItems scrollTop offsetHeight s1
      in fill (first v) (last' v) nodes s1)"

text \<open>
  One entry of the \<open>nodeResizerObserver\<close> callback: \<open>h\<close> is \<open>entry.contentRect.height\<close> and
  \<open>i\<close> is \<open>Number(entry.target.dataset.index)\<close>.
\<close>

definition nodeResize :: "int \<Rightarrow> int \<Rightarrow> 'a VirtualScroller \<Rightarrow> 'a thrown + 'a VirtualScroller" where
  "nodeResize i h s =
     (if h = 0 then Inr s
      else case js_index (itemsMetadata s) i of
             None \<Rightarrow> Inl (TypeError, s)
           | Some metadata \<Rightarrow>
               (let metadata1 = metadata\<lparr>height := h\<rparr>;
                    mutated = js_store (itemsMetadata s) i metadata1
                in Inr (s\<lparr>itemsMetadata := js_store mutated (index metadata1) metadata1\<rparr>)))"

text \<open>
  One entry of the \<open>scrollerResizerObserver\<close> callback, for
  \<open>h = entry.contentRect.height\<close>. Its call of \<open>handleScroll\<close> runs up to the tick.
\<close>

definition scrollerResize ::
  "int \<Rightarrow> int list \<Rightarrow> 'a VirtualScroller \<Rightarrow>
   'a thrown + ('a VirtualScroller \<times> CustomEvent list \<times> bool)" where
  "scrollerResize h nodes s =
     (case (if h \<noteq> 0 \<and> scrollHeight' s = 0 then updateMetadata nodes s else Inr s) of
        Inl thrown \<Rightarrow> Inl thrown
      | Inr s1 \<Rightarrow>
          if h \<noteq> 0 \<and> h \<noteq> scrollHeight' s1 then Inr (handleScroll_enter s1)
          else Inr (s1, [], False))"

text \<open>
  \<open>fillInitial\<close> calls itself after each animation frame. What the browser does in a frame
  is an argument: the item nodes that \<open>fill\<close> finds, what rendering, observers and other
  handlers do to the state while \<open>fillInitial\<close> waits in \<open>await this.tick()\<close>, and the
  \<open>clientHeight\<close> of the scroller read after it. One frame is consumed per call, and
  running out of frames is \<open>None\<close>: the chain of calls has not ended yet. The result counts
  the calls made.
\<close>

record 'a frame =
  nodes :: "int list"
  tick :: "'a VirtualScroller \<Rightarrow> 'a VirtualScroller"
  clientHeight :: int

fun fillInitial ::
  "'a frame list \<Rightarrow> 'a VirtualScroller \<Rightarrow> ('a thrown + ('a VirtualScroller \<times> CustomEvent list \<times> nat)) option" where
  "fillInitial [] s = None"
| "fillInitial (f # fs) s =
     (case fill (start (attachedRange s)) (end' (attachedRange s) + 1) (nodes f) s of
        Inl thrown \<Rightarrow> Some (Inl thrown)
      | Inr (s1, evs) \<Rightarrow>
          (let s2 = tick f s1 in
           if int (length (attached s2)) < int (length (items s2)) \<and> clientHeight f > clientHeight' s2
           then (case fillInitial fs s2 of
                   None \<Rightarrow> None
                 | Some (Inl thrown) \<Rightarrow> Some (Inl thrown)
                 | Some (Inr (s3, evs3, n)) \<Rightarrow> Some (Inr (s3, evs @ evs3, Suc n)))
           else Some (Inr (s2, evs, 1))))"

text \<open>
  \<open>updated(properties)\<close>, for \<open>has_items = properties.has('items')\<close>. The branch for
  \<open>minHeight\<close> only sets a style property and is left out.
\<close>

definition updated ::
  "bool \<Rightarrow> 'a frame list \<Rightarrow> 'a VirtualScroller \<Rightarrow> ('a thrown + ('a VirtualScroller \<times> CustomEvent list \<times> nat)) option" where
  "updated has_items frames s =
     (if has_items \<and> \<not> hasMore s \<and> length (items s) \<noteq> length (itemsMetadata s)
      then fillInitial frames ((resetMetadata s)\<lparr>scrollPosition := (0, 0)\<rparr>)
      else Some (Inr (s, [], 0)))"

section \<open>The component over time\<close>

text \<open>
  The field initialisers of the class, for given values of the three properties.
\<close>

definition initial :: "'a list \<Rightarrow> bool \<Rightarrow> int \<Rightarrow> 'a VirtualScroller" where
  "initial its flag dflt =
     \<lparr>items = its, hasMore = flag, minHeight = dflt, itemsMetadata = [],
      attachedRange = \<lparr>start = 0, end' = 0\<rparr>, loadingItem = \<lparr>top = 0, height = 0\<rparr>,
      isScrolling = False, isReady = False, scrollPosition = (0, 0)\<rparr>"

text \<open>
  The signals that reach the component, one handler run each: \<open>Scroll\<close> is a call of
  \<open>handleScroll\<close> by the scroll listener; \<open>Resume\<close> is the animation frame that lets one
  suspended \<open>handleScroll\<close> go on; \<open>Measure\<close> is an entry of the node resize observer and
  \<open>ScrollerResize\<close> one of the scroller resize observer; \<open>Fill\<close> is a call of \<open>fill\<close> by
  \<open>fillInitial\<close>; \<open>Reset\<close> is \<open>resetMetadata\<close> followed by \<open>scrollTo(0, 0)\<close>, as in
  \<open>updated\<close>; \<open>SetItems\<close> and \<open>SetHasMore\<close> are writes of the properties by the page. An
  exception ends the handler and leaves the state of the throw. \<open>settling\<close> counts the
  calls of \<open>handleScroll\<close> that are suspended at their tick; it is not a field of the
  class.
\<close>

datatype 'a signal =
    Scroll
  | Resume int int "int list"
  | Measure int int
  | ScrollerResize int "int list"
  | Fill int int "int list"
  | Reset
  | SetItems "'a list"
  | SetHasMore bool

record 'a engine =
  component :: "'a VirtualScroller"
  settling :: nat
  emitted :: "CustomEvent list"

fun deliver :: "'a engine \<Rightarrow> 'a signal \<Rightarrow> 'a engine" where
  "deliver e Scroll =
     (case handleScroll_enter (component e) of
        (s, evs, suspended) \<Rightarrow>
          e\<lparr>component := s, settling := settling e + (if suspended then 1 else 0),
            emitted := emitted e @ evs\<rparr>)"
| "deliver e (Resume scrollTop offsetHeight nds) =
     (if settling e = 0 then e
      else case handleScroll_resume scrollTop offsetHeight nds (component e) of
             Inl (err, s) \<Rightarrow> e\<lparr>component := s, settling := settling e - 1\<rparr>
           | Inr (s, evs) \<Rightarrow>
               e\<lparr>component := s, settling := settling e - 1, emitted := emitted e @ evs\<rparr>)"
| "deliver e (Measure i h) =
     (case nodeResize i h (component e) of
        Inl (err, s) \<Rightarrow> e\<lparr>component := s\<rparr>
      | Inr s \<Rightarrow> e\<lparr>component := s\<rparr>)"
| "deliver e (ScrollerResize h nds) =
     (case scrollerResize h nds (component e) of
        Inl (err, s) \<Rightarrow> e\<lparr>component := s\<rparr>
      | Inr (s, evs, suspended) \<Rightarrow>
          e\<lparr>component := s, settling := settling e + (if suspended then 1 else 0),
            emitted := emitted e @ evs\<rparr>)"
| "deliver e (Fill startArg endArg nds) =
     (case fill startArg endArg nds (component e) of
        Inl (err, s) \<Rightarrow> e\<lparr>component := s\<rparr>
      | Inr (s, evs) \<Rightarrow> e\<lparr>component := s, emitted := emitted e @ evs\<rparr>)"
| "deliver e Reset = e\<lparr>component := (resetMetadata (component e))\<lparr>scrollPosition := (0, 0)\<rparr>\<rparr>"
| "deliver e (SetItems its) = e\<lparr>component := (component e)\<lparr>items := its\<rparr>\<rparr>"
| "deliver e (SetHasMore flag) = e\<lparr>component := (component e)\<lparr>hasMore := flag\<rparr>\<rparr>"

definition run :: "'a engine \<Rightarrow> 'a signal list \<Rightarrow> 'a engine" where
  "run e sigs = foldl deliver e sigs"

definition engine_of :: "'a VirtualScroller \<Rightarrow> 'a engine" where
  "engine_of s = \<lparr>component = s, settling = 0, emitted = []\<rparr>"

section \<open>Notions used by the properties\<close>

text \<open>
  The metadata list after the first step of \<open>updateMetadata\<close>: one unmeasured record is
  appended for every item that has none yet.
\<close>

definition grown :: "'a VirtualScroller \<Rightarrow> 'a ScrollerItemMeta list" where
  "grown s = itemsMetadata s @ new_records s (length (items s) - length (itemsMetadata s))"

text \<open>The bounds that the specification states for the attached range.\<close>

definition range_within :: "'a VirtualScroller \<Rightarrow> bool" where
  "range_within s \<longleftrightarrow>
     0 \<le> start (attachedRange s) \<and> start (attachedRange s) \<le> end' (attachedRange s) \<and>
     end' (attachedRange s) \<le> max 0 (int (length (items s)) - 1)"

text \<open>
  \<open>r\<close> is the greatest index of \<open>xs\<close> whose element satisfies \<open>P\<close>, or \<open>-1\<close> when no
  element does.
\<close>

definition greatest_index_where :: "('a \<Rightarrow> bool) \<Rightarrow> 'a list \<Rightarrow> int \<Rightarrow> bool" where
  "greatest_index_where P xs r \<longleftrightarrow>
     (if \<exists>i < length xs. P (xs ! i)
      then 0 \<le> r \<and> r < int (length xs) \<and> P (xs ! nat r) \<and> (\<forall>j < length xs. P (xs ! j) \<longrightarrow> int j \<le> r)
      else r = - 1)"

text \<open>
  A frame in which nothing but measurements reaches the component: the items, the
  attached range and the number of records stay as they are.
\<close>

definition quiet :: "('a VirtualScroller \<Rightarrow> 'a VirtualScroller) \<Rightarrow> bool" where
  "quiet f \<longleftrightarrow>
     (\<forall>s. items (f s) = items s \<and> attachedRange (f s) = attachedRange s \<and>
          length (itemsMetadata (f s)) = length (itemsMetadata s))"

text \<open>
  The counter of suspended \<open>handleScroll\<close> calls agrees with the \<open>isScrolling\<close> flag.
\<close>

definition settled :: "'a engine \<Rightarrow> bool" where
  "settled e \<longleftrightarrow> settling e = (if isScrolling (component e) then 1 else 0)"

section \<open>Example states\<close>

text \<open>Three and ten items after \<open>resetMetadata\<close>, with the default estimate \<open>50\<close>.\<close>

definition three_items :: "string VirtualScroller" where
  "three_items = resetMetadata (initial [''a'', ''b'', ''c''] False 50)"

definition ten_items :: "string VirtualScroller" where
  "ten_items =
     resetMetadata
       (initial [''i0'', ''i1'', ''i2'', ''i3'', ''i4'', ''i5'', ''i6'', ''i7'', ''i8'', ''i9''] True 50)"

text \<open>An empty collection for which more data is announced, as constructed.\<close>

definition empty_more :: "string VirtualScroller" where
  "empty_more = initial [] True 50"

text \<open>One item and a negative \<open>minHeight\<close>.\<close>

definition negative_estimate :: "string VirtualScroller" where
  "negative_estimate = resetMetadata (initial [''a''] False (- 10))"

text \<open>
  The items have been replaced by as many new ones: the records still point to the old
  items, two of which are attached and measured, and the host is scrolled.
\<close>

definition swapped :: "string VirtualScroller" where
  "swapped =
     (initial [''x'', ''y''] False 50)
       \<lparr>itemsMetadata :=
          [\<lparr>index = 0, height = 30, data = Some ''a''\<rparr>, \<lparr>index = 1, height = 40, data = Some ''b''\<rparr>],
        attachedRange := \<lparr>start = 0, end' = 1\<rparr>,
        scrollPosition := (0, 120)\<rparr>"


definition idle_frame :: "string frame" where
  "idle_frame = \<lparr>nodes = [10, 10], tick = (\<lambda>s. s), clientHeight = 300\<rparr>"

text \<open>
  Three new items, while the two records of the items they replace are still attached
  and measured.
\<close>

definition reloaded :: "string VirtualScroller" where
  "reloaded =
     (initial [''x'', ''y'', ''z''] False 50)
       \<lparr>itemsMetadata :=
          [\<lparr>index = 0, height = 30, data = Some ''a''\<rparr>, \<lparr>index = 1, height = 40, data = Some ''b''\<rparr>],
        attachedRange := \<lparr>start = 0, end' = 1\<rparr>\<rparr>"





section \<open>Auxiliary facts\<close>

declare updateMetadata_loop.simps [simp del]

lemma js_index_Some_iff: "js_index xs i = Some x \<longleftrightarrow> 0 \<le> i \<and> i < int (length xs) \<and> xs ! nat i = x"
  by (auto simp: js_index_def)

lemma js_index_None_iff: "js_index xs i = None \<longleftrightarrow> \<not> (0 \<le> i \<and> i < int (length xs))"
  by (simp add: js_index_def)

lemma js_store_inside: "0 \<le> k \<Longrightarrow> k < int (length xs) \<Longrightarrow> js_store xs k v = xs[nat k := v]"
  by (simp add: js_store_def)

lemma updateMetadata_loop_result:
  "start (attachedRange s) \<le> i \<Longrightarrow> 0 \<le> i \<Longrightarrow> endR < int (length (itemsMetadata s)) \<Longrightarrow>
   \<exists>ms'. updateMetadata_loop nds endR i s = Inr (s\<lparr>itemsMetadata := ms'\<rparr>) \<and>
         length ms' = length (itemsMetadata s) \<and>
         (\<forall>j < length (itemsMetadata s).
            ms' ! j =
              (if i \<le> int j \<and> int j \<le> endR \<and> int j - start (attachedRange s) < int (length nds)
               then (itemsMetadata s ! j)\<lparr>height := nds ! nat (int j - start (attachedRange s)),
                                          data := js_index (items s) (int j)\<rparr>
               else itemsMetadata s ! j))"
proof (induction nds endR i s rule: updateMetadata_loop.induct)
  case (1 nds endR i s)
  let ?st = "start (attachedRange s)"
  let ?ms = "itemsMetadata s"
  show ?case
  proof (cases "i \<le> endR")
    case False
    then have "updateMetadata_loop nds endR i s = Inr s"
      by (simp add: updateMetadata_loop.simps)
    with False show ?thesis
      by (intro exI[of _ ?ms]) auto
  next
    case inrange: True
    show ?thesis
    proof (cases "js_index nds (i - ?st)")
      case None
      then have nonode: "\<not> i - ?st < int (length nds)"
        using "1.prems" by (simp add: js_index_None_iff)
      have "updateMetadata_loop nds endR i s = Inr s"
        using inrange None by (simp add: updateMetadata_loop.simps)
      with nonode show ?thesis
        by (intro exI[of _ ?ms]) auto
    next
      case (Some offsetHeight)
      then have node: "i - ?st < int (length nds)" "nds ! nat (i - ?st) = offsetHeight"
        by (simp_all add: js_index_Some_iff)
      have ib: "0 \<le> i" "i < int (length ?ms)"
        using "1.prems" inrange by simp_all
      then have meta: "js_index ?ms i = Some (?ms ! nat i)"
        by (simp add: js_index_def)
      define m1 where "m1 = (?ms ! nat i)\<lparr>height := offsetHeight, data := js_index (items s) i\<rparr>"
      define s1 where "s1 = s\<lparr>itemsMetadata := js_store ?ms i m1\<rparr>"
      have ms1: "itemsMetadata s1 = ?ms[nat i := m1]"
        using ib by (simp add: s1_def js_store_inside)
      have step: "updateMetadata_loop nds endR i s = updateMetadata_loop nds endR (i + 1) s1"
        using inrange Some meta
        by (subst updateMetadata_loop.simps) (simp add: s1_def m1_def)
      have "\<exists>ms'. updateMetadata_loop nds endR (i + 1) s1 = Inr (s1\<lparr>itemsMetadata := ms'\<rparr>) \<and>
         length ms' = length (itemsMetadata s1) \<and>
         (\<forall>j < length (itemsMetadata s1).
            ms' ! j =
              (if i + 1 \<le> int j \<and> int j \<le> endR \<and> int j - start (attachedRange s1) < int (length nds)
               then (itemsMetadata s1 ! j)\<lparr>height := nds ! nat (int j - start (attachedRange s1)),
                                          data := js_index (items s1) (int j)\<rparr>
               else itemsMetadata s1 ! j))"
        using "1.IH"[OF inrange Some meta, folded m1_def, folded s1_def] "1.prems" ms1
        by (simp add: s1_def)
      then obtain ms' where r: "updateMetadata_loop nds endR (i + 1) s1 = Inr (s1\<lparr>itemsMetadata := ms'\<rparr>)"
        and len: "length ms' = length (itemsMetadata s1)"
        and pt: "\<forall>j < length (itemsMetadata s1).
            ms' ! j =
              (if i + 1 \<le> int j \<and> int j \<le> endR \<and> int j - start (attachedRange s1) < int (length nds)
               then (itemsMetadata s1 ! j)\<lparr>height := nds ! nat (int j - start (attachedRange s1)),
                                          data := js_index (items s1) (int j)\<rparr>
               else itemsMetadata s1 ! j)"
        by blast
      have s1s: "s1\<lparr>itemsMetadata := ms'\<rparr> = s\<lparr>itemsMetadata := ms'\<rparr>"
        by (simp add: s1_def)
      have st1: "start (attachedRange s1) = ?st" "items s1 = items s"
        by (simp_all add: s1_def)
      have "\<forall>j < length ?ms. ms' ! j =
              (if i \<le> int j \<and> int j \<le> endR \<and> int j - ?st < int (length nds)
               then (?ms ! j)\<lparr>height := nds ! nat (int j - ?st), data := js_index (items s) (int j)\<rparr>
               else ?ms ! j)"
      proof (intro allI impI)
        fix j assume j: "j < length ?ms"
        show "ms' ! j =
              (if i \<le> int j \<and> int j \<le> endR \<and> int j - ?st < int (length nds)
               then (?ms ! j)\<lparr>height := nds ! nat (int j - ?st), data := js_index (items s) (int j)\<rparr>
               else ?ms ! j)"
        proof (cases "int j = i")
          case True
          then have "nat i = j" by simp
          with pt j ms1 st1 True node inrange show ?thesis
            by (simp add: m1_def)
        next
          case False
          then have "nat i \<noteq> j" using ib by auto
          with pt j ms1 st1 False show ?thesis
            by auto
        qed
      qed
      with r len step s1s ms1 show ?thesis
        by (intro exI[of _ ms']) simp
    qed
  qed
qed



lemma length_new_records: "length (new_records s d) = d"
  by (simp add: new_records_def)

lemma updateMetadata_result:
  assumes "0 \<le> start (attachedRange s)" "end' (attachedRange s) < int (length (items s))"
  shows "\<exists>ms'. updateMetadata nds s = Inr (s\<lparr>itemsMetadata := ms'\<rparr>) \<and>
           length ms' = max (length (itemsMetadata s)) (length (items s)) \<and>
           (\<forall>j < length ms'.
              ms' ! j =
                (if start (attachedRange s) \<noteq> end' (attachedRange s) \<and>
                    start (attachedRange s) \<le> int j \<and> int j \<le> end' (attachedRange s) \<and>
                    int j - start (attachedRange s) < int (length nds)
                 then (grown s ! j)\<lparr>height := nds ! nat (int j - start (attachedRange s)),
                                     data := js_index (items s) (int j)\<rparr>
                 else grown s ! j))"
proof -
  define s1 where "s1 = s\<lparr>itemsMetadata := grown s\<rparr>"
  have g: "length (grown s) = max (length (itemsMetadata s)) (length (items s))"
    by (simp add: grown_def length_new_records)
  have nat_diff: "nat (int (length (items s)) - int (length (itemsMetadata s))) =
      length (items s) - length (itemsMetadata s)"
    by simp
  have s1_alt: "(if int (length (items s)) - int (length (itemsMetadata s)) > 0
          then s\<lparr>itemsMetadata := itemsMetadata s @
                 new_records s (nat (int (length (items s)) - int (length (itemsMetadata s))))\<rparr>
          else s) = s1"
    unfolding nat_diff by (simp add: s1_def grown_def new_records_def)
  have um: "updateMetadata nds s =
      (if start (attachedRange s1) = end' (attachedRange s1) then Inr s1
       else updateMetadata_loop nds (end' (attachedRange s1)) (start (attachedRange s1)) s1)"
    unfolding updateMetadata_def Let_def s1_alt ..
  have f1: "attachedRange s1 = attachedRange s" "items s1 = items s" "itemsMetadata s1 = grown s"
    by (simp_all add: s1_def)
  show ?thesis
  proof (cases "start (attachedRange s) = end' (attachedRange s)")
    case True
    with um f1 have "updateMetadata nds s = Inr (s\<lparr>itemsMetadata := grown s\<rparr>)"
      by (simp add: s1_def)
    with True g show ?thesis
      by (intro exI[of _ "grown s"]) simp
  next
    case False
    have "end' (attachedRange s1) < int (length (itemsMetadata s1))"
      using assms(2) g f1 by simp
    from updateMetadata_loop_result[OF order_refl _ this, of nds] assms(1) f1
    obtain ms' where r: "updateMetadata_loop nds (end' (attachedRange s)) (start (attachedRange s)) s1 =
          Inr (s1\<lparr>itemsMetadata := ms'\<rparr>)"
      and len: "length ms' = length (grown s)"
      and pt: "\<forall>j < length (grown s). ms' ! j =
              (if start (attachedRange s) \<le> int j \<and> int j \<le> end' (attachedRange s) \<and>
                  int j - start (attachedRange s) < int (length nds)
               then (grown s ! j)\<lparr>height := nds ! nat (int j - start (attachedRange s)),
                                          data := js_index (items s) (int j)\<rparr>
               else grown s ! j)"
      by auto
    have "s1\<lparr>itemsMetadata := ms'\<rparr> = s\<lparr>itemsMetadata := ms'\<rparr>"
      by (simp add: s1_def)
    with um f1 False r have "updateMetadata nds s = Inr (s\<lparr>itemsMetadata := ms'\<rparr>)"
      by simp
    with len g pt False show ?thesis
      by (intro exI[of _ ms']) simp
  qed
qed


lemma fill_empty:
  "items s = [] \<Longrightarrow>
   fill startArg endArg nds s =
     Inr (s\<lparr>attachedRange := \<lparr>start = max 0 startArg, end' = min endArg 0\<rparr>\<rparr>,
          if 0 \<le> endArg \<and> hasMore s then [dispatch ''load-more'' (Some 0)] else [])"
  by (simp add: fill_def Let_def)

lemma fill_result:
  assumes "items s \<noteq> []"
  shows "\<exists>ms'. fill startArg endArg nds s =
             Inr (s\<lparr>attachedRange :=
                      \<lparr>start = max 0 startArg, end' = min endArg (int (length (items s)) - 1)\<rparr>,
                    itemsMetadata := ms'\<rparr>,
                  if int (length (items s)) \<le> endArg \<and> hasMore s
                  then [dispatch ''load-more'' (Some (int (length (items s))))] else []) \<and>
           length ms' = max (length (itemsMetadata s)) (length (items s)) \<and>
           (\<forall>j < length ms'.
              ms' ! j =
                (if max 0 startArg < min endArg (int (length (items s)) - 1) \<and>
                    max 0 startArg \<le> int j \<and> int j \<le> min endArg (int (length (items s)) - 1) \<and>
                    int j - max 0 startArg < int (length nds)
                 then (grown s ! j)\<lparr>height := nds ! nat (int j - max 0 startArg),
                                     data := js_index (items s) (int j)\<rparr>
                 else grown s ! j))"
proof -
  define s1 where
    "s1 = s\<lparr>attachedRange := \<lparr>start = max 0 startArg, end' = min endArg (int (length (items s)) - 1)\<rparr>\<rparr>"
  have n: "0 < length (items s)" using assms by simp
  have f1: "items s1 = items s" "itemsMetadata s1 = itemsMetadata s" "hasMore s1 = hasMore s"
    "start (attachedRange s1) = max 0 startArg"
    "end' (attachedRange s1) = min endArg (int (length (items s)) - 1)"
    "grown s1 = grown s"
    by (simp_all add: s1_def grown_def new_records_def)
  have "0 \<le> start (attachedRange s1)" "end' (attachedRange s1) < int (length (items s1))"
    using f1 by simp_all
  from updateMetadata_result[OF this, of nds]
  obtain ms' where um: "updateMetadata nds s1 = Inr (s1\<lparr>itemsMetadata := ms'\<rparr>)"
    and len: "length ms' = max (length (itemsMetadata s1)) (length (items s1))"
    and pt: "\<forall>j < length ms'.
              ms' ! j =
                (if start (attachedRange s1) \<noteq> end' (attachedRange s1) \<and>
                    start (attachedRange s1) \<le> int j \<and> int j \<le> end' (attachedRange s1) \<and>
                    int j - start (attachedRange s1) < int (length nds)
                 then (grown s1 ! j)\<lparr>height := nds ! nat (int j - start (attachedRange s1)),
                                     data := js_index (items s1) (int j)\<rparr>
                 else grown s1 ! j)"
    by blast
  have "fill startArg endArg nds s =
      (case updateMetadata nds s1 of Inl thrown \<Rightarrow> Inl thrown
       | Inr s2 \<Rightarrow> Inr (s2, if int (length (items s2)) \<le> endArg \<and> hasMore s2
                      then [dispatch ''load-more'' (Some (int (length (items s2))))] else []))"
    using n by (simp add: fill_def s1_def Let_def max_def split: sum.splits)
  with um have "fill startArg endArg nds s =
      Inr (s\<lparr>attachedRange :=
                \<lparr>start = max 0 startArg, end' = min endArg (int (length (items s)) - 1)\<rparr>,
             itemsMetadata := ms'\<rparr>,
           if int (length (items s)) \<le> endArg \<and> hasMore s
           then [dispatch ''load-more'' (Some (int (length (items s))))] else [])"
    by (simp add: s1_def)
  moreover have "\<forall>j < length ms'.
              ms' ! j =
                (if max 0 startArg < min endArg (int (length (items s)) - 1) \<and>
                    max 0 startArg \<le> int j \<and> int j \<le> min endArg (int (length (items s)) - 1) \<and>
                    int j - max 0 startArg < int (length nds)
                 then (grown s ! j)\<lparr>height := nds ! nat (int j - max 0 startArg),
                                     data := js_index (items s) (int j)\<rparr>
                 else grown s ! j)"
    using pt unfolding f1 by auto
  ultimately show ?thesis
    using len f1 by (intro exI[of _ ms']) simp
qed

text \<open>What every call of fill leaves alone, and what it sets.\<close>

lemma fill_frame:
  "\<exists>ms'. fill startArg endArg nds s =
      Inr (s\<lparr>attachedRange :=
               \<lparr>start = max 0 startArg, end' = min endArg (max 0 (int (length (items s)) - 1))\<rparr>,
             itemsMetadata := ms'\<rparr>,
           if int (length (items s)) \<le> endArg \<and> hasMore s
           then [dispatch ''load-more'' (Some (int (length (items s))))] else []) \<and>
      length (items s) \<le> length ms'"
proof (cases "items s = []")
  case True
  then show ?thesis
    by (intro exI[of _ "itemsMetadata s"]) (simp add: fill_empty)
next
  case False
  then have "max 0 (int (length (items s)) - 1) = int (length (items s)) - 1"
    by (cases "items s") simp_all
  with fill_result[OF False, of startArg endArg nds] show ?thesis
    by auto
qed

lemma three_items_eval:
  "three_items =
     \<lparr>items = [''a'', ''b'', ''c''], hasMore = False, minHeight = 50,
      itemsMetadata = [\<lparr>index = 0, height = 0, data = Some ''a''\<rparr>,
                       \<lparr>index = 1, height = 0, data = Some ''b''\<rparr>,
                       \<lparr>index = 2, height = 0, data = Some ''c''\<rparr>],
      attachedRange = \<lparr>start = 0, end' = 0\<rparr>, loadingItem = \<lparr>top = 0, height = 0\<rparr>,
      isScrolling = False, isReady = False, scrollPosition = (0, 0)\<rparr>"
  by (simp add: three_items_def resetMetadata_def initial_def enumerate_eq_zip upt_rec)

lemma ten_items_fields:
  "length (items ten_items) = 10" "hasMore ten_items" "attachedRange ten_items = \<lparr>start = 0, end' = 0\<rparr>"
  "items ten_items \<noteq> []"
  by (simp_all add: ten_items_def resetMetadata_def initial_def)

lemma empty_more_fields:
  "items empty_more = []" "hasMore empty_more" "attachedRange empty_more = \<lparr>start = 0, end' = 0\<rparr>"
  "itemsMetadata empty_more = []"
  by (simp_all add: empty_more_def initial_def)

lemma findLastIndex_from_greatest:
  "k \<le> length xs \<Longrightarrow>
   (if \<exists>i < k. P (xs ! i)
    then 0 \<le> findLastIndex_from xs P k \<and> findLastIndex_from xs P k < int k \<and>
         P (xs ! nat (findLastIndex_from xs P k)) \<and>
         (\<forall>j < k. P (xs ! j) \<longrightarrow> int j \<le> findLastIndex_from xs P k)
    else findLastIndex_from xs P k = - 1)"
proof (induction k)
  case 0
  then show ?case by simp
next
  case (Suc k)
  show ?case
  proof (cases "P (xs ! k)")
    case True
    then show ?thesis by (auto simp: less_Suc_eq)
  next
    case False
    from Suc have IH: "(if \<exists>i < k. P (xs ! i)
        then 0 \<le> findLastIndex_from xs P k \<and> findLastIndex_from xs P k < int k \<and>
             P (xs ! nat (findLastIndex_from xs P k)) \<and>
             (\<forall>j < k. P (xs ! j) \<longrightarrow> int j \<le> findLastIndex_from xs P k)
        else findLastIndex_from xs P k = - 1)"
      by simp
    have ex: "(\<exists>i < Suc k. P (xs ! i)) \<longleftrightarrow> (\<exists>i < k. P (xs ! i))"
      using False by (auto simp: less_Suc_eq)
    have step: "findLastIndex_from xs P (Suc k) = findLastIndex_from xs P k"
      using False by simp
    show ?thesis
    proof (cases "\<exists>i < k. P (xs ! i)")
      case True
      with IH have "0 \<le> findLastIndex_from xs P k" "findLastIndex_from xs P k < int k"
        "P (xs ! nat (findLastIndex_from xs P k))"
        "\<forall>j < k. P (xs ! j) \<longrightarrow> int j \<le> findLastIndex_from xs P k"
        by simp_all
      with True False show ?thesis
        unfolding ex step by (auto simp: less_Suc_eq)
    next
      case none: False
      with IH have "findLastIndex_from xs P k = - 1" by simp
      with none show ?thesis
        unfolding ex step by simp
    qed
  qed
qed

lemma findLastIndex_greatest: "greatest_index_where P xs (findLastIndex xs P)"
  using findLastIndex_from_greatest[of "length xs" xs P]
  by (simp add: greatest_index_where_def findLastIndex_def)

lemma fill_isScrolling:
  "fill startArg endArg nds s = Inl (err, s') \<or> fill startArg endArg nds s = Inr (s', evs) \<Longrightarrow>
   isScrolling s' = isScrolling s"
  using fill_frame[of startArg endArg nds s] by auto

lemma nodeResize_isScrolling:
  "nodeResize i h s = Inl (err, s') \<or> nodeResize i h s = Inr s' \<Longrightarrow> isScrolling s' = isScrolling s"
  by (auto simp: nodeResize_def Let_def split: if_splits option.splits)

lemma updateMetadata_loop_isScrolling:
  "updateMetadata_loop nds endR i s = Inl (err, s') \<or> updateMetadata_loop nds endR i s = Inr s' \<Longrightarrow>
   isScrolling s' = isScrolling s"
proof (induction nds endR i s rule: updateMetadata_loop.induct)
  case (1 nds endR i s)
  show ?case
  proof (cases "i \<le> endR")
    case False
    with "1.prems" show ?thesis
      by (simp add: updateMetadata_loop.simps)
  next
    case inrange: True
    show ?thesis
    proof (cases "js_index nds (i - start (attachedRange s))")
      case None
      with inrange "1.prems" show ?thesis
        by (simp add: updateMetadata_loop.simps)
    next
      case node: (Some offsetHeight)
      show ?thesis
      proof (cases "js_index (itemsMetadata s) i")
        case None
        with inrange node "1.prems" show ?thesis
          by (simp add: updateMetadata_loop.simps)
      next
        case (Some meta)
        with inrange node "1.prems" "1.IH"[OF inrange node Some] show ?thesis
          by (simp add: updateMetadata_loop.simps)
      qed
    qed
  qed
qed

lemma updateMetadata_isScrolling:
  "updateMetadata nds s = Inl (err, s') \<or> updateMetadata nds s = Inr s' \<Longrightarrow>
   isScrolling s' = isScrolling s"
  using updateMetadata_loop_isScrolling[of nds _ _ _ err s']
  by (fastforce simp: updateMetadata_def Let_def split: if_splits)

lemma deliver_settled: "settled e \<Longrightarrow> settled (deliver e sig)"
proof (cases sig)
  case Scroll
  assume "settled e"
  with Scroll show ?thesis
    by (simp add: settled_def handleScroll_enter_def)
next
  case (Resume scrollTop offsetHeight nds)
  assume a: "settled e"
  show ?thesis
  proof (cases "settling e = 0")
    case True
    with a Resume show ?thesis by simp
  next
    case False
    with a have sc: "isScrolling (component e)" "settling e = 1"
      by (auto simp: settled_def split: if_splits)
    have "\<And>err s'. handleScroll_resume scrollTop offsetHeight nds (component e) = Inl (err, s') \<Longrightarrow>
        \<not> isScrolling s'"
      "\<And>s' evs. handleScroll_resume scrollTop offsetHeight nds (component e) = Inr (s', evs) \<Longrightarrow>
        \<not> isScrolling s'"
      using fill_isScrolling by (fastforce simp: handleScroll_resume_def Let_def)+
    with sc Resume show ?thesis
      by (auto simp: settled_def split: sum.splits)
  qed
next
  case (Measure i h)
  assume "settled e"
  with Measure nodeResize_isScrolling[of i h "component e"] show ?thesis
    by (auto simp: settled_def split: sum.splits)
next
  case (ScrollerResize h nds)
  assume a: "settled e"
  show ?thesis
  proof (cases "scrollerResize h nds (component e)")
    case (Inl thrown)
    then have "isScrolling (snd thrown) = isScrolling (component e)"
      using updateMetadata_isScrolling[of nds "component e" "fst thrown" "snd thrown"]
      by (auto simp: scrollerResize_def split: if_splits sum.splits)
    with a Inl ScrollerResize show ?thesis
      by (cases thrown) (simp add: settled_def)
  next
    case (Inr r)
    obtain s1 where s1: "(if h \<noteq> 0 \<and> scrollHeight' (component e) = 0
          then updateMetadata nds (component e) else Inr (component e)) = Inr s1"
      and r: "r = (if h \<noteq> 0 \<and> h \<noteq> scrollHeight' s1 then handleScroll_enter s1 else (s1, [], False))"
      using Inr by (auto simp: scrollerResize_def split: sum.splits if_splits)
    have "isScrolling s1 = isScrolling (component e)"
      using s1 updateMetadata_isScrolling[of nds "component e" _ s1] by (auto split: if_splits)
    with a Inr ScrollerResize r show ?thesis
      by (auto simp: settled_def handleScroll_enter_def)
  qed
next
  case (Fill startArg endArg nds)
  assume "settled e"
  with Fill fill_isScrolling[of startArg endArg nds "component e"] show ?thesis
    by (auto simp: settled_def split: sum.splits)
next
  case Reset
  assume "settled e"
  with Reset show ?thesis
    by (simp add: settled_def resetMetadata_def)
next
  case (SetItems its)
  assume "settled e"
  with SetItems show ?thesis
    by (simp add: settled_def)
next
  case (SetHasMore flag)
  assume "settled e"
  with SetHasMore show ?thesis
    by (simp add: settled_def)
qed

lemma run_settled: "settled e \<Longrightarrow> settled (run e sigs)"
  unfolding run_def by (induction sigs arbitrary: e) (simp_all add: deliver_settled)

lemma accumulativeHeight_step_snoc:
  "acc \<noteq> [] \<Longrightarrow> accumulativeHeight_step d acc m = acc @ [last acc + height_or d m]"
  by (simp add: accumulativeHeight_step_def lodash_last_def)

lemma offsets_length:
  "acc \<noteq> [] \<Longrightarrow> length (foldl (accumulativeHeight_step d) acc ms) = length acc + length ms"
  by (induction ms arbitrary: acc) (simp_all add: accumulativeHeight_step_snoc)

lemma offsets_prefix:
  "acc \<noteq> [] \<Longrightarrow> i < length acc \<Longrightarrow> foldl (accumulativeHeight_step d) acc ms ! i = acc ! i"
  by (induction ms arbitrary: acc) (simp_all add: accumulativeHeight_step_snoc nth_append)

lemma offsets_step:
  "acc \<noteq> [] \<Longrightarrow> i < length ms \<Longrightarrow>
   foldl (accumulativeHeight_step d) acc ms ! (length acc + i) =
   foldl (accumulativeHeight_step d) acc ms ! (length acc + i - 1) + height_or d (ms ! i)"
proof (induction ms arbitrary: acc i)
  case Nil
  then show ?case by simp
next
  case (Cons m ms)
  let ?acc = "acc @ [last acc + height_or d m]"
  have f: "foldl (accumulativeHeight_step d) acc (m # ms) = foldl (accumulativeHeight_step d) ?acc ms"
    using Cons.prems(1) by (simp add: accumulativeHeight_step_snoc)
  show ?case
  proof (cases i)
    case 0
    have "foldl (accumulativeHeight_step d) ?acc ms ! length acc = ?acc ! length acc"
      by (rule offsets_prefix) simp_all
    moreover have "foldl (accumulativeHeight_step d) ?acc ms ! (length acc - 1) = ?acc ! (length acc - 1)"
      using Cons.prems(1) by (intro offsets_prefix) simp_all
    moreover have "?acc ! (length acc - 1) = last acc"
      using Cons.prems(1) by (simp add: nth_append last_conv_nth)
    ultimately show ?thesis
      using 0 f by simp
  next
    case (Suc k)
    with Cons.prems have "k < length ms" by simp
    from Cons.IH[of ?acc k, OF _ this] Suc f show ?thesis
      by simp
  qed
qed

lemma sorted_le_last: "sorted xs \<Longrightarrow> x \<in> set xs \<Longrightarrow> x \<le> last xs"
  by (induction xs) auto

lemma offsets_sorted:
  "acc \<noteq> [] \<Longrightarrow> sorted acc \<Longrightarrow> \<forall>m \<in> set ms. 0 \<le> height_or d m \<Longrightarrow>
   sorted (foldl (accumulativeHeight_step d) acc ms)"
proof (induction ms arbitrary: acc)
  case Nil
  then show ?case by simp
next
  case (Cons m ms)
  have "sorted (acc @ [last acc + height_or d m])"
    using Cons.prems sorted_le_last[of acc] by (fastforce simp: sorted_append)
  with Cons show ?case
    by (simp add: accumulativeHeight_step_snoc)
qed

lemma length_resetMetadata: "length (itemsMetadata (resetMetadata s)) = length (items s)"
  by (simp add: resetMetadata_def)

lemma nth_resetMetadata:
  "i < length (items s) \<Longrightarrow>
   itemsMetadata (resetMetadata s) ! i = \<lparr>index = int i, height = 0, data = Some (items s ! i)\<rparr>"
  by (simp add: resetMetadata_def nth_enumerate_eq)

lemma measure_first:
  assumes "minHeight s = 50" "2 \<le> length (items s)"
  shows "\<exists>s'. nodeResize 0 80 (resetMetadata s) = Inr s' \<and>
           accumulativeHeight s' ! 1 = 80 \<and> accumulativeHeight s' ! 2 = 130"
proof -
  from assms(2) obtain a b rest where its: "items s = a # b # rest"
    by (cases "items s"; cases "tl (items s)") auto
  define ms where "ms = map (\<lambda>(i, item). \<lparr>index = int i, height = 0, data = Some item\<rparr>) (enumerate 2 rest)"
  have r: "itemsMetadata (resetMetadata s) =
      \<lparr>index = 0, height = 0, data = Some a\<rparr> # \<lparr>index = 1, height = 0, data = Some b\<rparr> # ms"
    by (simp add: resetMetadata_def its ms_def numeral_2_eq_2)
  define s' where "s' = (resetMetadata s)\<lparr>itemsMetadata :=
      \<lparr>index = 0, height = 80, data = Some a\<rparr> # \<lparr>index = 1, height = 0, data = Some b\<rparr> # ms\<rparr>"
  have "nodeResize 0 80 (resetMetadata s) = Inr s'"
    by (simp add: nodeResize_def js_index_def r js_store_def s'_def)
  moreover have "minHeight s' = 50"
    using assms(1) by (simp add: s'_def resetMetadata_def)
  then have "accumulativeHeight s' = foldl (accumulativeHeight_step 50) [0, 80, 130] ms"
    by (simp add: accumulativeHeight_def s'_def accumulativeHeight_step_snoc height_or_def)
  then have "accumulativeHeight s' ! 1 = 80" "accumulativeHeight s' ! 2 = 130"
    by (simp_all add: offsets_prefix)
  ultimately show ?thesis by blast
qed

lemma grown_three_items: "grown three_items = itemsMetadata three_items"
  by (simp add: grown_def new_records_def three_items_eval)

lemma length_attached:
  "start (attachedRange s) = 0 \<Longrightarrow> 0 \<le> end' (attachedRange s) \<Longrightarrow>
   length (attached s) = min (nat (end' (attachedRange s) + 1)) (length (itemsMetadata s))"
  by (auto simp: attached_def js_slice_def Let_def min_def)

lemma fillInitial_call:
  assumes "start (attachedRange s) = 0" "0 \<le> end' (attachedRange s)" "quiet (tick f)"
  shows "\<exists>s1 evs. fill (start (attachedRange s)) (end' (attachedRange s) + 1) (nodes f) s = Inr (s1, evs) \<and>
    items (tick f s1) = items s \<and>
    start (attachedRange (tick f s1)) = 0 \<and>
    end' (attachedRange (tick f s1)) =
      min (end' (attachedRange s) + 1) (max 0 (int (length (items s)) - 1)) \<and>
    length (attached (tick f s1)) =
      min (nat (min (end' (attachedRange s) + 1) (max 0 (int (length (items s)) - 1)) + 1))
        (length (itemsMetadata (tick f s1))) \<and>
    length (items s) \<le> length (itemsMetadata (tick f s1))"
proof -
  from fill_frame[of "start (attachedRange s)" "end' (attachedRange s) + 1" "nodes f" s]
  obtain ms' evs where
    f: "fill (start (attachedRange s)) (end' (attachedRange s) + 1) (nodes f) s =
      Inr (s\<lparr>attachedRange :=
               \<lparr>start = max 0 (start (attachedRange s)),
                end' = min (end' (attachedRange s) + 1) (max 0 (int (length (items s)) - 1))\<rparr>,
             itemsMetadata := ms'\<rparr>, evs)"
    and len: "length (items s) \<le> length ms'"
    by blast
  define s1 where "s1 = s\<lparr>attachedRange :=
               \<lparr>start = max 0 (start (attachedRange s)),
                end' = min (end' (attachedRange s) + 1) (max 0 (int (length (items s)) - 1))\<rparr>,
             itemsMetadata := ms'\<rparr>"
  have q: "items (tick f s1) = items s1" "attachedRange (tick f s1) = attachedRange s1"
    "length (itemsMetadata (tick f s1)) = length (itemsMetadata s1)"
    using assms(3) by (simp_all add: quiet_def)
  have r: "start (attachedRange (tick f s1)) = 0"
    "end' (attachedRange (tick f s1)) = min (end' (attachedRange s) + 1) (max 0 (int (length (items s)) - 1))"
    unfolding q using assms(1) by (simp_all add: s1_def)
  have "0 \<le> end' (attachedRange (tick f s1))"
    using r assms(2) by simp
  from length_attached[OF r(1) this] r
  have "length (attached (tick f s1)) =
      min (nat (min (end' (attachedRange s) + 1) (max 0 (int (length (items s)) - 1)) + 1))
        (length (itemsMetadata (tick f s1)))"
    by simp
  moreover have "items (tick f s1) = items s" "length (items s) \<le> length (itemsMetadata (tick f s1))"
    using q len by (simp_all add: s1_def)
  ultimately show ?thesis
    using f r unfolding s1_def[symmetric] by blast
qed

lemma quiet_idle: "quiet (tick idle_frame)"
  by (simp add: quiet_def idle_frame_def)



text \<open>
  Where the attached window starts at index \<open>0\<close> and nothing but measurements reaches
  the component during the frames, the chain of calls of \<open>fillInitial\<close> does end, after
  at most \<open>max(1, N - 1 - e)\<close> calls.
\<close>

lemma fillInitial_from_start:
  assumes "start (attachedRange s) = 0" "0 \<le> end' (attachedRange s)"
    and "\<forall>f \<in> set frames. quiet (tick f)"
    and "max 1 (length (items s) - 1 - nat (end' (attachedRange s))) \<le> length frames"
  shows "\<exists>s' evs n. fillInitial frames s = Some (Inr (s', evs, n)) \<and>
    1 \<le> n \<and> n \<le> max 1 (length (items s) - 1 - nat (end' (attachedRange s))) \<and>
    (items s \<noteq> [] \<longrightarrow> n \<le> length (items s)) \<and>
    items s' = items s \<and> start (attachedRange s') = 0 \<and>
    end' (attachedRange s') = min (end' (attachedRange s) + int n) (max 0 (int (length (items s)) - 1)) \<and>
    \<not> (length (attached s') < length (items s') \<and> clientHeight' s' < clientHeight (frames ! (n - 1))) \<and>
    (\<forall>s1 evs1.
       fill (start (attachedRange s)) (end' (attachedRange s) + 1) (nodes (hd frames)) s = Inr (s1, evs1) \<and>
       clientHeight (hd frames) \<le> clientHeight' (tick (hd frames) s1) \<longrightarrow> n = 1)"
  using assms
proof (induction frames arbitrary: s)
  case Nil
  then show ?case by simp
next
  case (Cons f fs)
  let ?e = "end' (attachedRange s)"
  let ?N = "length (items s)"
  have qf: "quiet (tick f)" using Cons.prems(3) by simp
  from fillInitial_call[OF Cons.prems(1,2) qf]
  obtain s1 evs where
    f: "fill (start (attachedRange s)) (?e + 1) (nodes f) s = Inr (s1, evs)"
    and its: "items (tick f s1) = items s"
    and st: "start (attachedRange (tick f s1)) = 0"
    and en: "end' (attachedRange (tick f s1)) = min (?e + 1) (max 0 (int ?N - 1))"
    and att: "length (attached (tick f s1)) =
        min (nat (min (?e + 1) (max 0 (int ?N - 1)) + 1)) (length (itemsMetadata (tick f s1)))"
    and len: "?N \<le> length (itemsMetadata (tick f s1))"
    by blast
  define s2 where "s2 = tick f s1"
  note its = its[folded s2_def] and st = st[folded s2_def] and en = en[folded s2_def]
    and att = att[folded s2_def] and len = len[folded s2_def]
  show ?case
  proof (cases "int (length (attached s2)) < int (length (items s2)) \<and> clientHeight f > clientHeight' s2")
    case False
    then have res: "fillInitial (f # fs) s = Some (Inr (s2, evs, 1))"
      using f by (auto simp: s2_def Let_def)
    have "\<not> (length (attached s2) < length (items s2) \<and> clientHeight' s2 < clientHeight ((f # fs) ! (1 - 1)))"
      using False by simp
    moreover have "items s \<noteq> [] \<longrightarrow> (1::nat) \<le> ?N"
      by (cases "items s") simp_all
    ultimately show ?thesis
      using res its st en by (intro exI[of _ s2] exI[of _ evs] exI[of _ 1]) simp
  next
    case True
    then have "length (attached s2) < ?N"
      using its by simp
    with att len have small: "nat (min (?e + 1) (max 0 (int ?N - 1)) + 1) < ?N"
      by simp
    then have more: "?e + 1 < int ?N - 1"
      using Cons.prems(2) by (auto simp: min_def max_def split: if_splits)
    then have en2: "end' (attachedRange s2) = ?e + 1"
      using en by simp
    have suc: "nat (?e + 1) = Suc (nat ?e)" and big: "nat ?e + 2 < ?N"
      using Cons.prems(2) more by simp_all
    have fuel: "max 1 (length (items s2) - 1 - nat (end' (attachedRange s2))) \<le> length fs"
      using Cons.prems(4) big unfolding its en2 suc by simp
    have "0 \<le> end' (attachedRange s2)"
      using en2 Cons.prems(2) by simp
    from Cons.IH[OF st this _ fuel] Cons.prems(3)
    obtain s3 evs3 n where
      r: "fillInitial fs s2 = Some (Inr (s3, evs3, n))"
      and n1: "1 \<le> n"
      and n2: "n \<le> max 1 (length (items s2) - 1 - nat (end' (attachedRange s2)))"
      and i3: "items s3 = items s2" "start (attachedRange s3) = 0"
      and e3: "end' (attachedRange s3) =
          min (end' (attachedRange s2) + int n) (max 0 (int (length (items s2)) - 1))"
      and c3: "\<not> (length (attached s3) < length (items s3) \<and> clientHeight' s3 < clientHeight (fs ! (n - 1)))"
      by auto
    have res: "fillInitial (f # fs) s = Some (Inr (s3, evs @ evs3, Suc n))"
      using f True r by (simp add: s2_def Let_def)
    have b1: "Suc n \<le> max 1 (?N - 1 - nat ?e)"
      using n2 big unfolding its en2 suc by simp
    have b2: "Suc n \<le> ?N"
      using b1 big by simp
    have b3: "end' (attachedRange s3) = min (?e + int (Suc n)) (max 0 (int ?N - 1))"
      using e3 unfolding its en2 by (simp add: add.assoc)
    have b4: "\<not> (length (attached s3) < length (items s3) \<and>
        clientHeight' s3 < clientHeight ((f # fs) ! (Suc n - 1)))"
      using c3 n1 by (cases n) simp_all
    have b5: "\<forall>s1' evs1.
        fill (start (attachedRange s)) (?e + 1) (nodes (hd (f # fs))) s = Inr (s1', evs1) \<and>
        clientHeight (hd (f # fs)) \<le> clientHeight' (tick (hd (f # fs)) s1') \<longrightarrow> Suc n = 1"
      using f True by (auto simp: s2_def)
    from res b1 b2 b3 b4 b5 i3 its show ?thesis
      by (intro exI[of _ s3] exI[of _ "evs @ evs3"] exI[of _ "Suc n"]) simp
  qed
qed

lemma fillInitial_from_start_example:
  "start (attachedRange three_items) = 0 \<and> 0 \<le> end' (attachedRange three_items) \<and>
   list_all (\<lambda>f. quiet (tick f)) [idle_frame, idle_frame] \<and>
   max 1 (length (items three_items) - 1 - nat (end' (attachedRange three_items))) \<le>
     length [idle_frame, idle_frame] \<and>
   (\<exists>s' evs n. fillInitial [idle_frame, idle_frame] three_items = Some (Inr (s', evs, n)) \<and>
      1 \<le> n \<and> n \<le> 2 \<and> start (attachedRange s') = 0 \<and> end' (attachedRange s') = min (int n) 2)"
proof -
  have h: "start (attachedRange three_items) = 0" "0 \<le> end' (attachedRange three_items)"
    "\<forall>f \<in> set [idle_frame, idle_frame]. quiet (tick f)"
    "max 1 (length (items three_items) - 1 - nat (end' (attachedRange three_items))) \<le>
       length [idle_frame, idle_frame]"
    by (simp_all add: three_items_eval quiet_idle)
  have h2: "length (items three_items) = 3" "end' (attachedRange three_items) = 0"
    by (simp_all add: three_items_eval)
  from fillInitial_from_start[OF h]
  obtain s' evs n where r: "fillInitial [idle_frame, idle_frame] three_items = Some (Inr (s', evs, n))"
    and b: "1 \<le> n" "n \<le> max 1 (length (items three_items) - 1 - nat (end' (attachedRange three_items)))"
      "start (attachedRange s') = 0"
      "end' (attachedRange s') =
         min (end' (attachedRange three_items) + int n) (max 0 (int (length (items three_items)) - 1))"
    by blast
  from b h2 have "n \<le> 2" "end' (attachedRange s') = min (int n) 2"
    by simp_all
  with r b have "\<exists>s' evs n. fillInitial [idle_frame, idle_frame] three_items = Some (Inr (s', evs, n)) \<and>
      1 \<le> n \<and> n \<le> 2 \<and> start (attachedRange s') = 0 \<and> end' (attachedRange s') = min (int n) 2"
    by blast
  with h show ?thesis
    by (simp add: quiet_idle del: fillInitial.simps)
qed




section \<open>The attached range that fill stores\<close>

text \<open>
  C1, as amended. For every collection and every pair of integers, \<open>fill\<close> returns
  normally and stores the range \<open>{max(0, start), min(end, max(0, items.length - 1))}\<close>.
  Its start is never negative and its end never exceeds \<open>max(0, items.length - 1)\<close>. The
  start is at most the end, so that the whole chain
  \<open>0 <= start <= end <= max(0, items.length - 1)\<close> holds, when the arguments satisfy
  \<open>start <= end\<close>, \<open>0 <= end\<close> and \<open>start <= max(0, items.length - 1)\<close>. On the empty
  collection the stored range is \<open>{0,0}\<close> when \<open>start <= 0 <= end\<close>.
\<close>

theorem fill_range:
  "\<exists>s' evs. fill startArg endArg nds s = Inr (s', evs) \<and> items s' = items s \<and>
     start (attachedRange s') = max 0 startArg \<and>
     end' (attachedRange s') = min endArg (max 0 (int (length (items s)) - 1)) \<and>
     0 \<le> start (attachedRange s') \<and>
     end' (attachedRange s') \<le> max 0 (int (length (items s)) - 1) \<and>
     (startArg \<le> endArg \<and> 0 \<le> endArg \<and> startArg \<le> max 0 (int (length (items s)) - 1)
        \<longrightarrow> range_within s') \<and>
     (items s = [] \<and> startArg \<le> 0 \<and> 0 \<le> endArg \<longrightarrow> attachedRange s' = \<lparr>start = 0, end' = 0\<rparr>)"
proof -
  from fill_frame[of startArg endArg nds s]
  obtain ms' evs where
    "fill startArg endArg nds s =
      Inr (s\<lparr>attachedRange :=
               \<lparr>start = max 0 startArg, end' = min endArg (max 0 (int (length (items s)) - 1))\<rparr>,
             itemsMetadata := ms'\<rparr>, evs)"
    by blast
  then show ?thesis
    by (auto simp: range_within_def)
qed

text \<open>
  The theorem at \<open>fill(0, 1)\<close> on three items and at \<open>fill(-1, 4)\<close> on the empty
  collection.
\<close>

theorem fill_range_witness:
  "(0::int) \<le> 1 \<and> (0::int) \<le> max 0 (int (length (items three_items)) - 1) \<and>
   (\<exists>s' evs. fill 0 1 [] three_items = Inr (s', evs) \<and> range_within s') \<and>
   items empty_more = [] \<and>
   (\<exists>s' evs. fill (- 1) 4 [] empty_more = Inr (s', evs) \<and> attachedRange s' = \<lparr>start = 0, end' = 0\<rparr>)"
  using fill_range[of 0 1 "[]" three_items] fill_range[of "- 1" 4 "[]" empty_more]
  by (auto simp: three_items_eval empty_more_def initial_def)

text \<open>
  The claim as stated fails: \<open>fill(5, 2)\<close> on three items stores \<open>{5, 2}\<close>, whose start
  exceeds its end, and \<open>fill(3, 7)\<close> on the empty collection stores \<open>{3, 0}\<close>.
\<close>

theorem fill_range_counterexample:
  "fill 5 2 [] three_items = Inr (three_items\<lparr>attachedRange := \<lparr>start = 5, end' = 2\<rparr>\<rparr>, []) \<and>
   \<not> range_within (three_items\<lparr>attachedRange := \<lparr>start = 5, end' = 2\<rparr>\<rparr>) \<and>
   fill 3 7 [] empty_more =
     Inr (empty_more\<lparr>attachedRange := \<lparr>start = 3, end' = 0\<rparr>\<rparr>, [\<lparr>type' = ''event'', detail = Some 0\<rparr>])"
  by code_simp

section \<open>The accumulative offsets\<close>

text \<open>
  C2, as amended. For every metadata list synchronized with the items collection, the
  accumulative-offset sequence has length \<open>items.length + 1\<close>, its element \<open>0\<close> is \<open>0\<close>,
  and each element \<open>i + 1\<close> is element \<open>i\<close> plus the record's height if that is not zero
  and \<open>minHeight\<close> otherwise. The sequence is non-decreasing provided \<open>minHeight\<close> is not
  negative and no record has a negative height. After measuring item \<open>0\<close> at height \<open>80\<close>
  with all other items unmeasured and \<open>minHeight = 50\<close>, element \<open>1\<close> is \<open>80\<close> and element
  \<open>2\<close> is \<open>130\<close>.
\<close>

theorem accumulativeHeight_offsets:
  assumes "length (itemsMetadata s) = length (items s)"
  shows "length (accumulativeHeight s) = length (items s) + 1 \<and>
    accumulativeHeight s ! 0 = 0 \<and>
    (\<forall>i < length (items s).
       accumulativeHeight s ! Suc i =
         accumulativeHeight s ! i +
         (if height (itemsMetadata s ! i) \<noteq> 0 then height (itemsMetadata s ! i) else minHeight s)) \<and>
    (0 \<le> minHeight s \<and> (\<forall>m \<in> set (itemsMetadata s). 0 \<le> height m) \<longrightarrow> sorted (accumulativeHeight s)) \<and>
    (minHeight s = 50 \<and> 2 \<le> length (items s) \<longrightarrow>
       (\<exists>s'. nodeResize 0 80 (resetMetadata s) = Inr s' \<and>
          accumulativeHeight s' ! 1 = 80 \<and> accumulativeHeight s' ! 2 = 130))"
proof -
  have len: "length (accumulativeHeight s) = length (items s) + 1"
    using assms by (simp add: accumulativeHeight_def offsets_length)
  have zero: "accumulativeHeight s ! 0 = 0"
    by (simp add: accumulativeHeight_def offsets_prefix)
  have step: "accumulativeHeight s ! Suc i =
         accumulativeHeight s ! i +
         (if height (itemsMetadata s ! i) \<noteq> 0 then height (itemsMetadata s ! i) else minHeight s)"
    if "i < length (items s)" for i
    using offsets_step[of "[0]" i "itemsMetadata s" "minHeight s"] that assms
    by (simp add: accumulativeHeight_def height_or_def)
  have mono: "sorted (accumulativeHeight s)"
    if "0 \<le> minHeight s" "\<forall>m \<in> set (itemsMetadata s). 0 \<le> height m"
    unfolding accumulativeHeight_def using that
    by (intro offsets_sorted) (simp_all add: height_or_def)
  from len zero step mono measure_first[of s] show ?thesis
    by blast
qed

text \<open>The theorem at three unmeasured items with \<open>minHeight = 50\<close>.\<close>

theorem accumulativeHeight_offsets_witness:
  "length (itemsMetadata three_items) = length (items three_items) \<and>
   0 \<le> minHeight three_items \<and> list_all (\<lambda>m. 0 \<le> height m) (itemsMetadata three_items) \<and>
   sorted (accumulativeHeight three_items) \<and>
   accumulativeHeight three_items ! Suc 0 = accumulativeHeight three_items ! 0 + 50 \<and>
   minHeight three_items = 50 \<and> 2 \<le> length (items three_items) \<and>
   (\<exists>s'. nodeResize 0 80 (resetMetadata three_items) = Inr s' \<and>
      accumulativeHeight s' ! 1 = 80 \<and> accumulativeHeight s' ! 2 = 130)"
proof -
  have h: "length (itemsMetadata three_items) = length (items three_items)"
    "0 \<le> minHeight three_items" "\<forall>m \<in> set (itemsMetadata three_items). 0 \<le> height m"
    "minHeight three_items = 50" "2 \<le> length (items three_items)" "0 < length (items three_items)"
    "height (itemsMetadata three_items ! 0) = 0"
    by (simp_all add: three_items_eval)
  note t = accumulativeHeight_offsets[OF h(1)]
  from t h have "sorted (accumulativeHeight three_items)" by blast
  moreover from t h(6) have "accumulativeHeight three_items ! Suc 0 = accumulativeHeight three_items ! 0 +
      (if height (itemsMetadata three_items ! 0) \<noteq> 0 then height (itemsMetadata three_items ! 0)
       else minHeight three_items)"
    by blast
  moreover from t h have "\<exists>s'. nodeResize 0 80 (resetMetadata three_items) = Inr s' \<and>
      accumulativeHeight s' ! 1 = 80 \<and> accumulativeHeight s' ! 2 = 130"
    by blast
  ultimately show ?thesis
    using h by (simp add: list_all_iff)
qed

text \<open>
  The claim as stated fails for a negative \<open>minHeight\<close>: with one unmeasured item and
  \<open>minHeight = -10\<close> the offsets are \<open>[0, -10]\<close>.
\<close>

theorem accumulativeHeight_offsets_counterexample:
  "length (itemsMetadata negative_estimate) = length (items negative_estimate) \<and>
   items negative_estimate \<noteq> [] \<and>
   accumulativeHeight negative_estimate = [0, - 10] \<and>
   \<not> sorted (accumulativeHeight negative_estimate)"
  by (simp add: negative_estimate_def resetMetadata_def initial_def accumulativeHeight_def
      accumulativeHeight_step_def lodash_last_def height_or_def)

section \<open>Replacing the items\<close>

text \<open>
  C3, as amended. For every update of the \<open>items\<close> property where \<open>hasMore\<close> is false and
  the length of the new collection differs from the number of metadata records, the
  engine fully rebuilds the metadata store (every record with height \<open>0\<close>, its data the
  item at its position and its index that position) and resets the attached range to
  \<open>{0,0}\<close>, leaving the items and every other field of its state but the scroll
  position as they are, and runs \<open>fillInitial\<close> from that state. When \<open>hasMore\<close> is true
  or the lengths agree, whatever the content, and when the update is not one of
  \<open>items\<close>, the state is left as it is. Nothing is said about the scroll position.
\<close>

theorem updated_items:
  "(\<not> hasMore s \<and> length (items s) \<noteq> length (itemsMetadata s) \<longrightarrow>
      (\<exists>position. updated True frames s =
                    fillInitial frames ((resetMetadata s)\<lparr>scrollPosition := position\<rparr>)) \<and>
      length (itemsMetadata (resetMetadata s)) = length (items s) \<and>
      (\<forall>i < length (items s).
         itemsMetadata (resetMetadata s) ! i = \<lparr>index = int i, height = 0, data = Some (items s ! i)\<rparr>) \<and>
      attachedRange (resetMetadata s) = \<lparr>start = 0, end' = 0\<rparr> \<and>
      resetMetadata s =
        s\<lparr>itemsMetadata := itemsMetadata (resetMetadata s), attachedRange := \<lparr>start = 0, end' = 0\<rparr>\<rparr>) \<and>
   (hasMore s \<or> length (items s) = length (itemsMetadata s) \<longrightarrow>
      updated True frames s = Some (Inr (s, [], 0))) \<and>
   updated False frames s = Some (Inr (s, [], 0))"
proof -
  have "\<exists>position. updated True frames s =
      fillInitial frames ((resetMetadata s)\<lparr>scrollPosition := position\<rparr>)"
    if "\<not> hasMore s" "length (items s) \<noteq> length (itemsMetadata s)"
    using that by (auto simp: updated_def)
  moreover have "attachedRange (resetMetadata s) = \<lparr>start = 0, end' = 0\<rparr>"
    "resetMetadata s =
       s\<lparr>itemsMetadata := itemsMetadata (resetMetadata s), attachedRange := \<lparr>start = 0, end' = 0\<rparr>\<rparr>"
    by (simp_all add: resetMetadata_def)
  moreover have "hasMore s \<or> length (items s) = length (itemsMetadata s) \<Longrightarrow>
      updated True frames s = Some (Inr (s, [], 0))"
    by (auto simp: updated_def)
  moreover have "updated False frames s = Some (Inr (s, [], 0))"
    by (simp add: updated_def)
  ultimately show ?thesis
    using length_resetMetadata[of s] nth_resetMetadata[of _ s] by blast
qed

text \<open>
  The theorem at three new items that replace two attached and measured ones, with two
  frames in which two nodes of height \<open>10\<close> are rendered: the update ends after two calls
  of \<open>fillInitial\<close> with three records for the new items and the window \<open>{0, 2}\<close>. And at
  two items replaced by two others, where nothing changes.
\<close>

theorem updated_items_witness:
  "\<not> hasMore reloaded \<and> length (items reloaded) \<noteq> length (itemsMetadata reloaded) \<and>
   (\<exists>s' evs. updated True [idle_frame, idle_frame] reloaded = Some (Inr (s', evs, 2)) \<and>
      itemsMetadata s' =
        [\<lparr>index = 0, height = 10, data = Some ''x''\<rparr>, \<lparr>index = 1, height = 10, data = Some ''y''\<rparr>,
         \<lparr>index = 2, height = 0, data = Some ''z''\<rparr>] \<and>
      attachedRange s' = \<lparr>start = 0, end' = 2\<rparr>) \<and>
   itemsMetadata (resetMetadata reloaded) =
     [\<lparr>index = 0, height = 0, data = Some ''x''\<rparr>, \<lparr>index = 1, height = 0, data = Some ''y''\<rparr>,
      \<lparr>index = 2, height = 0, data = Some ''z''\<rparr>] \<and>
   length (items swapped) = length (itemsMetadata swapped) \<and>
   updated True [idle_frame, idle_frame] swapped = Some (Inr (swapped, [], 0))"
proof -
  have h: "\<not> hasMore reloaded" "length (items reloaded) \<noteq> length (itemsMetadata reloaded)"
    by (simp_all add: reloaded_def initial_def)
  have r: "resetMetadata reloaded =
      reloaded\<lparr>itemsMetadata :=
          [\<lparr>index = 0, height = 0, data = Some ''x''\<rparr>, \<lparr>index = 1, height = 0, data = Some ''y''\<rparr>,
           \<lparr>index = 2, height = 0, data = Some ''z''\<rparr>],
        attachedRange := \<lparr>start = 0, end' = 0\<rparr>\<rparr>"
    by code_simp
  from updated_items[of reloaded "[idle_frame, idle_frame]"] h
  obtain position where u: "updated True [idle_frame, idle_frame] reloaded =
      fillInitial [idle_frame, idle_frame] ((resetMetadata reloaded)\<lparr>scrollPosition := position\<rparr>)"
    by blast
  have run: "\<exists>s' evs. fillInitial [idle_frame, idle_frame]
        ((resetMetadata reloaded)\<lparr>scrollPosition := position\<rparr>) = Some (Inr (s', evs, 2)) \<and>
      itemsMetadata s' =
        [\<lparr>index = 0, height = 10, data = Some ''x''\<rparr>, \<lparr>index = 1, height = 10, data = Some ''y''\<rparr>,
         \<lparr>index = 2, height = 0, data = Some ''z''\<rparr>] \<and>
      attachedRange s' = \<lparr>start = 0, end' = 2\<rparr>"
    unfolding r
    by (simp add: reloaded_def initial_def idle_frame_def fill_def updateMetadata_def
        updateMetadata_loop.simps js_index_def js_store_def attached_def js_slice_def
        clientHeight'_def enumerate_eq_zip Let_def)
  from updated_items[of swapped "[idle_frame, idle_frame]"]
  have "updated True [idle_frame, idle_frame] swapped = Some (Inr (swapped, [], 0))"
    by (simp add: swapped_def initial_def)
  with h u run r show ?thesis
    by (simp add: swapped_def initial_def del: fillInitial.simps)
qed

text \<open>
  The claim as stated fails: after a replacement of two items by two others, with
  \<open>hasMore\<close> false, the update keeps the records of the old items with their heights
  and the attached range \<open>{0,1}\<close>.
\<close>

theorem updated_items_counterexample:
  "\<not> hasMore swapped \<and> length (items swapped) = length (itemsMetadata swapped) \<and>
   updated True [idle_frame] swapped = Some (Inr (swapped, [], 0)) \<and>
   map data (itemsMetadata swapped) \<noteq> map Some (items swapped) \<and>
   map height (itemsMetadata swapped) = [30, 40] \<and>
   attachedRange swapped = \<lparr>start = 0, end' = 1\<rparr>"
  by (simp add: swapped_def initial_def updated_def)

section \<open>The load-more signal\<close>

text \<open>
  C4, evaluated on the code. Every call of \<open>fill\<close> returns normally and dispatches one
  event exactly when \<open>hasMore\<close> is true and the \<open>end\<close> argument, before clamping, is at
  least \<open>items.length\<close>; the detail of the event is \<open>items.length\<close> and its type is the
  string \<open>event\<close>, not \<open>load-more\<close>. With \<open>hasMore\<close> true and ten items, \<open>fill(4, 10)\<close>
  attaches \<open>{4, 9}\<close> and dispatches an event of type \<open>event\<close> with detail \<open>10\<close>, and
  \<open>fill(4, 9)\<close> attaches \<open>{4, 9}\<close> and dispatches nothing.
\<close>

theorem fill_load_more:
  "(\<exists>s'. fill startArg endArg nds s =
      Inr (s', if int (length (items s)) \<le> endArg \<and> hasMore s
               then [\<lparr>type' = ''event'', detail = Some (int (length (items s)))\<rparr>] else [])) \<and>
   (\<exists>s'. fill 4 10 nds ten_items = Inr (s', [\<lparr>type' = ''event'', detail = Some 10\<rparr>]) \<and>
         attachedRange s' = \<lparr>start = 4, end' = 9\<rparr>) \<and>
   (\<exists>s'. fill 4 9 nds ten_items = Inr (s', []) \<and> attachedRange s' = \<lparr>start = 4, end' = 9\<rparr>) \<and>
   type' (dispatch ''load-more'' (Some 10)) \<noteq> ''load-more''"
proof -
  have g: "\<exists>s'. fill a b nds t =
      Inr (s', if int (length (items t)) \<le> b \<and> hasMore t
               then [\<lparr>type' = ''event'', detail = Some (int (length (items t)))\<rparr>] else []) \<and>
      attachedRange s' = \<lparr>start = max 0 a, end' = min b (max 0 (int (length (items t)) - 1))\<rparr>"
    for a b and t :: "'b VirtualScroller"
    using fill_frame[of a b nds t] by (auto simp: dispatch_def)
  from g[of startArg endArg s] have general:
    "\<exists>s'. fill startArg endArg nds s =
      Inr (s', if int (length (items s)) \<le> endArg \<and> hasMore s
               then [\<lparr>type' = ''event'', detail = Some (int (length (items s)))\<rparr>] else [])"
    by blast
  from g[of 4 10 ten_items] have beyond:
    "\<exists>s'. fill 4 10 nds ten_items = Inr (s', [\<lparr>type' = ''event'', detail = Some 10\<rparr>]) \<and>
         attachedRange s' = \<lparr>start = 4, end' = 9\<rparr>"
    by (simp add: ten_items_fields)
  from g[of 4 9 ten_items] have at_end:
    "\<exists>s'. fill 4 9 nds ten_items = Inr (s', []) \<and> attachedRange s' = \<lparr>start = 4, end' = 9\<rparr>"
    by (simp add: ten_items_fields)
  have "type' (dispatch ''load-more'' (Some 10)) \<noteq> ''load-more''"
    by (simp add: dispatch_def)
  with general beyond at_end show ?thesis
    by blast
qed

section \<open>Visibility of the loading placeholder\<close>

text \<open>
  C5, as amended. For every engine state, the loading placeholder is visible if and only
  if \<open>hasMore\<close> is true and \<open>attachedRange.end >= items.length - 1\<close>. Where the end of
  the range does not exceed the last known index, as after every \<open>fill\<close> on a non-empty
  collection, this is \<open>attachedRange.end = items.length - 1\<close>. On the empty collection
  with a range whose end is not negative, the placeholder is visible exactly when
  \<open>hasMore\<close> is true.
\<close>

theorem loading_visible:
  "(loading s \<longleftrightarrow> hasMore s \<and> int (length (items s)) - 1 \<le> end' (attachedRange s)) \<and>
   (end' (attachedRange s) \<le> int (length (items s)) - 1 \<longrightarrow>
      (loading s \<longleftrightarrow> hasMore s \<and> end' (attachedRange s) = int (length (items s)) - 1)) \<and>
   (items s \<noteq> [] \<longrightarrow>
      (\<exists>s' evs. fill startArg endArg nds s = Inr (s', evs) \<and>
         (loading s' \<longleftrightarrow> hasMore s \<and> end' (attachedRange s') = int (length (items s)) - 1))) \<and>
   (items s = [] \<and> 0 \<le> end' (attachedRange s) \<longrightarrow> (loading s \<longleftrightarrow> hasMore s))"
proof -
  have "items s \<noteq> [] \<Longrightarrow>
      \<exists>s' evs. fill startArg endArg nds s = Inr (s', evs) \<and>
         (loading s' \<longleftrightarrow> hasMore s \<and> end' (attachedRange s') = int (length (items s)) - 1)"
  proof -
    assume ne: "items s \<noteq> []"
    from fill_result[OF ne, of startArg endArg nds]
    obtain ms' evs where
      "fill startArg endArg nds s =
         Inr (s\<lparr>attachedRange :=
                  \<lparr>start = max 0 startArg, end' = min endArg (int (length (items s)) - 1)\<rparr>,
                itemsMetadata := ms'\<rparr>, evs)"
      by blast
    then show ?thesis
      by (auto simp: loading_def)
  qed
  then show ?thesis
    by (auto simp: loading_def)
qed

text \<open>
  The theorem at \<open>fill(4, 10)\<close> on ten items with \<open>hasMore\<close>, at the ten items before
  any fill, and at the empty collection.
\<close>

theorem loading_visible_witness:
  "items ten_items \<noteq> [] \<and>
   (\<exists>s' evs. fill 4 10 [] ten_items = Inr (s', evs) \<and> (loading s' \<longleftrightarrow> end' (attachedRange s') = 9)) \<and>
   end' (attachedRange ten_items) \<le> int (length (items ten_items)) - 1 \<and> \<not> loading ten_items \<and>
   items empty_more = [] \<and> 0 \<le> end' (attachedRange empty_more) \<and> loading empty_more"
  using loading_visible[of ten_items 4 10 "[]"] loading_visible[of empty_more 0 0 "[]"]
  by (simp add: ten_items_fields empty_more_fields)

text \<open>
  The claim as stated fails on the empty collection: the constructed range is \<open>{0,0}\<close>,
  whose end is not \<open>items.length - 1 = -1\<close>, and the placeholder is visible.
\<close>

theorem loading_visible_counterexample:
  "loading empty_more \<and> hasMore empty_more \<and>
   end' (attachedRange empty_more) \<noteq> int (length (items empty_more)) - 1"
  by (simp add: loading_def empty_more_def initial_def)

section \<open>Measurements for an index outside the metadata list\<close>

text \<open>
  C6, evaluated on the code. A measurement signal with a height other than \<open>0\<close> and an
  index outside the metadata list modifies no record and raises a \<open>TypeError\<close>: the
  handler reads \<open>itemsMetadata[index]\<close>, which is \<open>undefined\<close>, and assigns to its
  \<open>height\<close>.
\<close>

theorem nodeResize_out_of_bounds:
  "h \<noteq> 0 \<Longrightarrow> i < 0 \<or> int (length (itemsMetadata s)) \<le> i \<Longrightarrow> nodeResize i h s = Inl (TypeError, s)"
  by (auto simp: nodeResize_def js_index_def)

text \<open>The theorem at index \<open>5\<close> and height \<open>30\<close> on three items.\<close>

theorem nodeResize_out_of_bounds_witness:
  "(30::int) \<noteq> 0 \<and> int (length (itemsMetadata three_items)) \<le> 5 \<and>
   nodeResize 5 30 three_items = Inl (TypeError, three_items)"
  using nodeResize_out_of_bounds[of 30 5 three_items]
  by (simp add: three_items_eval)

section \<open>The visible range\<close>

text \<open>
  C7. For every state, \<open>scrollTop\<close> and viewport height, \<open>getVisibleItems\<close> returns as
  \<open>first\<close> the greatest index \<open>i\<close> of the offset sequence with
  \<open>offsets[i] <= scrollTop\<close> and as \<open>last\<close> the greatest index \<open>i\<close> with
  \<open>offsets[i] <= scrollTop + viewportHeight\<close>, each \<open>-1\<close> when no index satisfies the
  predicate. With three items of height \<open>50\<close> the offsets are \<open>[0, 50, 100, 150]\<close> and
  the result for \<open>scrollTop = 0\<close> and viewport height \<open>60\<close> is \<open>{first: 0, last: 1}\<close>.
\<close>

theorem getVisibleItems_greatest:
  "greatest_index_where (\<lambda>item. item \<le> scrollTop) (accumulativeHeight s)
     (first (getVisibleItems scrollTop offsetHeight s)) \<and>
   greatest_index_where (\<lambda>item. item \<le> scrollTop + offsetHeight) (accumulativeHeight s)
     (last' (getVisibleItems scrollTop offsetHeight s)) \<and>
   (map (height_or (minHeight s)) (itemsMetadata s) = [50, 50, 50] \<longrightarrow>
      accumulativeHeight s = [0, 50, 100, 150] \<and>
      getVisibleItems 0 60 s = \<lparr>first = 0, last' = 1\<rparr>)"
proof -
  have offs: "accumulativeHeight s = [0, 50, 100, 150]"
    if "map (height_or (minHeight s)) (itemsMetadata s) = [50, 50, 50]"
  proof -
    from that obtain a b c where ms: "itemsMetadata s = [a, b, c]"
      and h: "height_or (minHeight s) a = 50" "height_or (minHeight s) b = 50" "height_or (minHeight s) c = 50"
      by (auto simp: map_eq_Cons_conv)
    show ?thesis
      by (simp add: accumulativeHeight_def ms accumulativeHeight_step_def lodash_last_def h)
  qed
  have "getVisibleItems 0 60 s = \<lparr>first = 0, last' = 1\<rparr>"
    if "map (height_or (minHeight s)) (itemsMetadata s) = [50, 50, 50]"
    using offs[OF that]
    by (simp add: getVisibleItems_def findLastIndex_def)
  with offs show ?thesis
    by (simp add: getVisibleItems_def findLastIndex_greatest)
qed

text \<open>The theorem at three unmeasured items with the default estimate \<open>50\<close>.\<close>

theorem getVisibleItems_greatest_witness:
  "map (height_or (minHeight three_items)) (itemsMetadata three_items) = [50, 50, 50] \<and>
   getVisibleItems 0 60 three_items = \<lparr>first = 0, last' = 1\<rparr> \<and>
   greatest_index_where (\<lambda>item. item \<le> 0) (accumulativeHeight three_items) 0 \<and>
   greatest_index_where (\<lambda>item. item \<le> 0 + 60) (accumulativeHeight three_items) 1"
proof -
  have h: "map (height_or (minHeight three_items)) (itemsMetadata three_items) = [50, 50, 50]"
    by (simp add: three_items_eval height_or_def)
  note t = getVisibleItems_greatest[of 0 three_items 60]
  from t h have v: "getVisibleItems 0 60 three_items = \<lparr>first = 0, last' = 1\<rparr>"
    by blast
  from t have
    "greatest_index_where (\<lambda>item. item \<le> 0) (accumulativeHeight three_items)
       (first (getVisibleItems 0 60 three_items))"
    "greatest_index_where (\<lambda>item. item \<le> 0 + 60) (accumulativeHeight three_items)
       (last' (getVisibleItems 0 60 three_items))"
    by blast+
  with v h show ?thesis
    by simp
qed

section \<open>The measurement refresh of fill\<close>

text \<open>
  C8, as amended. For every call of \<open>fill\<close> on a non-empty collection, with clamped
  range \<open>{start', end'}\<close>: the metadata list is first grown to one record per item; when
  \<open>start' < end'\<close>, every index \<open>i\<close> of the range for which the \<open>(i - start')\<close>-th
  rendered node exists has its height re-read from that node and its data pointer
  refreshed from \<open>items[i]\<close>, and every other record is left as it was; when the clamped
  range is a single index or empty, no record is re-read.
\<close>

theorem fill_refresh:
  assumes "items s \<noteq> []"
  shows "\<exists>s' evs. fill startArg endArg nds s = Inr (s', evs) \<and>
     length (itemsMetadata s') = length (grown s) \<and>
     (\<forall>j < length (itemsMetadata s').
        itemsMetadata s' ! j =
          (if max 0 startArg < min endArg (int (length (items s)) - 1) \<and>
              max 0 startArg \<le> int j \<and> int j \<le> min endArg (int (length (items s)) - 1) \<and>
              int j - max 0 startArg < int (length nds)
           then (grown s ! j)\<lparr>height := nds ! nat (int j - max 0 startArg), data := Some (items s ! j)\<rparr>
           else grown s ! j)) \<and>
     (min endArg (int (length (items s)) - 1) \<le> max 0 startArg \<longrightarrow> itemsMetadata s' = grown s)"
proof -
  from fill_result[OF assms, of startArg endArg nds]
  obtain ms' evs where f: "fill startArg endArg nds s =
        Inr (s\<lparr>attachedRange :=
                 \<lparr>start = max 0 startArg, end' = min endArg (int (length (items s)) - 1)\<rparr>,
               itemsMetadata := ms'\<rparr>, evs)"
    and len: "length ms' = max (length (itemsMetadata s)) (length (items s))"
    and pt: "\<forall>j < length ms'.
              ms' ! j =
                (if max 0 startArg < min endArg (int (length (items s)) - 1) \<and>
                    max 0 startArg \<le> int j \<and> int j \<le> min endArg (int (length (items s)) - 1) \<and>
                    int j - max 0 startArg < int (length nds)
                 then (grown s ! j)\<lparr>height := nds ! nat (int j - max 0 startArg),
                                     data := js_index (items s) (int j)\<rparr>
                 else grown s ! j)"
    by blast
  have g: "length (grown s) = length ms'"
    using len by (simp add: grown_def length_new_records)
  have pt': "\<forall>j < length ms'.
        ms' ! j =
          (if max 0 startArg < min endArg (int (length (items s)) - 1) \<and>
              max 0 startArg \<le> int j \<and> int j \<le> min endArg (int (length (items s)) - 1) \<and>
              int j - max 0 startArg < int (length nds)
           then (grown s ! j)\<lparr>height := nds ! nat (int j - max 0 startArg), data := Some (items s ! j)\<rparr>
           else grown s ! j)"
    using pt by (auto simp: js_index_def)
  have "ms' = grown s" if "min endArg (int (length (items s)) - 1) \<le> max 0 startArg"
    using that pt g by (intro nth_equalityI) auto
  with f g pt' show ?thesis
    by (intro exI[of _ "s\<lparr>attachedRange :=
                 \<lparr>start = max 0 startArg, end' = min endArg (int (length (items s)) - 1)\<rparr>,
               itemsMetadata := ms'\<rparr>"] exI[of _ evs]) simp
qed

text \<open>
  The theorem at \<open>fill(0, 1)\<close> and at \<open>fill(1, 1)\<close> on three items with two rendered
  nodes of heights \<open>30\<close> and \<open>40\<close>.
\<close>

theorem fill_refresh_witness:
  "items three_items \<noteq> [] \<and>
   (\<exists>s' evs. fill 0 1 [30, 40] three_items = Inr (s', evs) \<and>
      itemsMetadata s' ! 0 = \<lparr>index = 0, height = 30, data = Some ''a''\<rparr> \<and>
      itemsMetadata s' ! 1 = \<lparr>index = 1, height = 40, data = Some ''b''\<rparr> \<and>
      itemsMetadata s' ! 2 = \<lparr>index = 2, height = 0, data = Some ''c''\<rparr>) \<and>
   (\<exists>s' evs. fill 1 1 [30, 40] three_items = Inr (s', evs) \<and> itemsMetadata s' = itemsMetadata three_items)"
proof -
  have ne: "items three_items \<noteq> []"
    by (simp add: three_items_eval)
  from fill_refresh[OF ne, of 0 1 "[30, 40]"]
  have a: "\<exists>s' evs. fill 0 1 [30, 40] three_items = Inr (s', evs) \<and>
      itemsMetadata s' ! 0 = \<lparr>index = 0, height = 30, data = Some ''a''\<rparr> \<and>
      itemsMetadata s' ! 1 = \<lparr>index = 1, height = 40, data = Some ''b''\<rparr> \<and>
      itemsMetadata s' ! 2 = \<lparr>index = 2, height = 0, data = Some ''c''\<rparr>"
    unfolding grown_three_items by (fastforce simp: three_items_eval)
  from fill_refresh[OF ne, of 1 1 "[30, 40]"]
  have b: "\<exists>s' evs. fill 1 1 [30, 40] three_items = Inr (s', evs) \<and> itemsMetadata s' = itemsMetadata three_items"
    unfolding grown_three_items by (fastforce simp: three_items_eval)
  from ne a b show ?thesis by blast
qed

text \<open>
  The claim as stated fails for a single index: \<open>fill(0, 0)\<close> on three items, with a
  rendered node of height \<open>30\<close>, leaves the height of record \<open>0\<close> at \<open>0\<close>.
\<close>

theorem fill_refresh_counterexample:
  "items three_items \<noteq> [] \<and> fill 0 0 [30] three_items = Inr (three_items, []) \<and>
   attachedRange three_items = \<lparr>start = 0, end' = 0\<rparr> \<and>
   height (itemsMetadata three_items ! 0) \<noteq> 30"
  by code_simp

section \<open>Termination of fillInitial\<close>



section \<open>The scroll guard\<close>

text \<open>
  C10. For every engine state in which \<open>isScrolling\<close> is true, a further call of
  \<open>handleScroll\<close> is a no-op: it dispatches no event, does not suspend and so performs no
  fill, and leaves the whole state as it is. Starting from a state in which
  \<open>isScrolling\<close> is false, whatever scroll signals, animation frames, resize
  observations, fills, resets and property writes follow, at most one call of
  \<open>handleScroll\<close> is suspended at its tick at any time.
\<close>

theorem handleScroll_guard:
  "(isScrolling s \<longrightarrow> handleScroll_enter s = (s, [], False)) \<and>
   (isScrolling (component e) \<longrightarrow> deliver e Scroll = e) \<and>
   (\<not> isScrolling s \<longrightarrow> settling (run (engine_of s) sigs) \<le> 1)"
proof -
  have "settled (engine_of s)" if "\<not> isScrolling s"
    using that by (simp add: settled_def engine_of_def)
  then have "settling (run (engine_of s) sigs) \<le> 1" if "\<not> isScrolling s"
    using run_settled[of "engine_of s" sigs] that by (simp add: settled_def)
  then show ?thesis
    by (simp add: handleScroll_enter_def)
qed

text \<open>
  The theorem at three items: a second scroll signal changes nothing, and a run of
  seven signals never has more than one call suspended.
\<close>

theorem handleScroll_guard_witness:
  "isScrolling (three_items\<lparr>isScrolling := True\<rparr>) \<and>
   handleScroll_enter (three_items\<lparr>isScrolling := True\<rparr>) = (three_items\<lparr>isScrolling := True\<rparr>, [], False) \<and>
   isScrolling (component (run (engine_of three_items) [Scroll])) \<and>
   deliver (run (engine_of three_items) [Scroll]) Scroll = run (engine_of three_items) [Scroll] \<and>
   \<not> isScrolling three_items \<and>
   settling (run (engine_of three_items) [Scroll, ScrollerResize 300 [], Measure 0 80, Scroll, Resume 0 60 [], Reset, Scroll]) \<le> 1"
  using handleScroll_guard[of "three_items\<lparr>isScrolling := True\<rparr>" "run (engine_of three_items) [Scroll]" "[]"]
    handleScroll_guard[of three_items "engine_of three_items" "[Scroll, ScrollerResize 300 [], Measure 0 80, Scroll, Resume 0 60 [], Reset, Scroll]"]
  by (simp add: three_items_eval run_def engine_of_def handleScroll_enter_def)

end
